theory Spec2Isabelle
  imports Main "HOL-Library.Word"
begin

section \<open>Strings of the source language\<close>

text \<open>
  A string of the source is a sequence of 16-bit code units. Literals of the source are
  ASCII and are written through \<open>js\<close>.
\<close>

type_synonym jschar = "16 word"
type_synonym jsstring = "jschar list"

definition js :: "string \<Rightarrow> jsstring" where
  "js s = map (\<lambda>c. of_nat (of_char c)) s"

text \<open>
  The code units that \<open>String.prototype.trim\<close> strips: the WhiteSpace and LineTerminator
  productions of the language.
\<close>

definition js_whitespace :: "jschar list" where
  "js_whitespace =
     [0x0009, 0x000A, 0x000B, 0x000C, 0x000D, 0x0020, 0x00A0, 0x1680,
      0x2000, 0x2001, 0x2002, 0x2003, 0x2004, 0x2005, 0x2006, 0x2007,
      0x2008, 0x2009, 0x200A, 0x2028, 0x2029, 0x202F, 0x205F, 0x3000, 0xFEFF]"

definition is_whitespace :: "jschar \<Rightarrow> bool" where
  "is_whitespace c = (c \<in> set js_whitespace)"

definition trim :: "jsstring \<Rightarrow> jsstring" where
  "trim s = rev (dropWhile is_whitespace (rev (dropWhile is_whitespace s)))"

text \<open>\<open>s.split('\n')\<close>: the pieces between the newlines, one more than there are newlines.\<close>

definition newline :: jschar where
  "newline = 0x000A"

fun split_newline :: "jsstring \<Rightarrow> jsstring list" where
  "split_newline [] = [[]]"
| "split_newline (c # cs) =
     (if c = newline then [] # split_newline cs
      else (case split_newline cs of
              [] \<Rightarrow> [[c]]
            | l # ls \<Rightarrow> (c # l) # ls))"

text \<open>A non-negative integer in a template literal: its decimal digits.\<close>

definition digit :: "nat \<Rightarrow> jschar" where
  "digit d = of_nat (48 + d)"

fun decimal :: "nat \<Rightarrow> jsstring" where
  "decimal n = (if n < 10 then [digit n] else decimal (n div 10) @ [digit (n mod 10)])"

declare decimal.simps [simp del]

section \<open>types.ts\<close>

datatype IssueSeverity = CRITICAL | HIGH | MEDIUM | LOW

datatype IssueCategory = BUG | SECURITY | PERFORMANCE | STYLE | BEST_PRACTICE

record CodeIssue =
  line :: int
  category :: IssueCategory
  severity :: IssueSeverity
  description :: jsstring
  suggestion :: jsstring

record ReviewMetrics =
  securityScore :: int
  performanceScore :: int
  maintainabilityScore :: int
  overallHealth :: int

record CodeReviewResult =
  summary :: jsstring
  issues :: "CodeIssue list"
  metrics :: ReviewMetrics
  optimizedCode :: jsstring
  languageDetected :: jsstring

section \<open>App.tsx: the component state\<close>

datatype mode = mentor | strict | debugger | performance | tester

fun mode_str :: "mode \<Rightarrow> jsstring" where
  "mode_str mentor = js ''mentor''"
| "mode_str strict = js ''strict''"
| "mode_str debugger = js ''debugger''"
| "mode_str performance = js ''performance''"
| "mode_str tester = js ''tester''"

datatype log_type = info | warn | err

record log_entry =
  msg :: jsstring
  type :: log_type

record app =
  code :: jsstring
  language :: jsstring
  provider :: jsstring
  mode :: mode
  loading :: bool
  result :: "CodeReviewResult option"
  error :: "jsstring option"
  isBackendOnline :: bool
  logs :: "log_entry list"
  copySuccess :: bool

text \<open>
  \<open>setLogs(prev => [...prev.slice(-24), { msg, type }])\<close>: \<open>slice(-24)\<close> keeps the last 24
  entries, all of them when there are fewer.
\<close>

definition slice_last :: "nat \<Rightarrow> 'a list \<Rightarrow> 'a list" where
  "slice_last k xs = drop (length xs - k) xs"

definition addLog :: "jsstring \<Rightarrow> log_type \<Rightarrow> log_entry list \<Rightarrow> log_entry list" where
  "addLog m t prev = slice_last 24 prev @ [\<lparr>msg = m, type = t\<rparr>]"


section \<open>App.tsx: constants\<close>

datatype sample = Memory_Leak_JS | SQL_Injection_Py | Inefficient_Loop_TS

fun SAMPLES :: "sample \<Rightarrow> jsstring" where
  \<open>SAMPLES Memory_Leak_JS =
     js ''let cache = [];\<newline>function processData(data) {\<newline>  cache.push(data);\<newline>  return data.toUpperCase();\<newline>}\<newline>setInterval(() => processData("data"), 100);''\<close>
| \<open>SAMPLES SQL_Injection_Py =
     js ''import sqlite3\<newline>def get_user(user_id):\<newline>  conn = sqlite3.connect("db.sqlite")\<newline>  query = f"SELECT * FROM users WHERE id = '{user_id}'"\<newline>  conn.cursor().execute(query)\<newline>  return cursor.fetchone()''\<close>
| \<open>SAMPLES Inefficient_Loop_TS =
     js ''function findDuplicates(arr: number[]) {\<newline>  const dups = [];\<newline>  for (let i = 0; i < arr.length; i++) {\<newline>    for (let j = i + 1; j < arr.length; j++) {\<newline>      if (arr[i] === arr[j] && !dups.includes(arr[i])) dups.push(arr[i]);\<newline>    }\<newline>  }\<newline>  return dups;\<newline>}''\<close>

definition SUPPORTED_LANGUAGES :: "jsstring list" where
  "SUPPORTED_LANGUAGES = [js ''Auto-detect'', js ''C++'', js ''Java'', js ''C'', js ''Python'']"

text \<open>The personas the toolbar offers; \<open>tester\<close> is in the type only.\<close>

definition persona_buttons :: "mode list" where
  "persona_buttons = [strict, mentor, debugger, performance]"

definition initial_code :: jsstring where
  \<open>initial_code =
     js ''// Senior Developer optimized snippet...\<newline>async function fetchUserData(id: string) {\<newline>  const user = await db.users.findUnique({ where: { id } });\<newline>  if (!user) throw new Error("404");\<newline>  return user;\<newline>}''\<close>

definition initial_app :: app where
  "initial_app =
     \<lparr>code = initial_code, language = js ''Auto-detect'', provider = js ''gemini'',
      mode = strict, loading = False, result = None, error = None,
      isBackendOnline = False, logs = [], copySuccess = False\<rparr>"

section \<open>App.tsx: handleAnalyze\<close>

text \<open>The arguments of one call \<open>analyzeCode(code, language, provider, mode, isAlternative)\<close>.\<close>

record request =
  req_code :: jsstring
  req_language :: jsstring
  req_provider :: jsstring
  req_mode :: mode
  req_isAlternative :: bool

text \<open>
  Modelled from the spec: \<open>analyzeCode\<close> of services/apiService, which is not among the
  sources. A call is answered later, with a \<open>CodeReviewResult\<close> (\<open>Inr\<close>) or with a
  failure that carries a message (\<open>Inl\<close>); the answer is a parameter of what follows.
\<close>

type_synonym response = "jsstring + CodeReviewResult"

text \<open>
  The component and what it has outstanding: the calls to \<open>analyzeCode\<close> not answered yet
  (oldest first), whether the start-up probe is still running, and the timers of the
  copy button.
\<close>

record world =
  ui :: app
  inflight :: "request list"
  probing :: bool
  timers :: nat

text \<open>The statements of the handlers, one constructor for each state setter and call.\<close>

datatype effect =
    SetCode jsstring
  | SetLanguage jsstring
  | SetMode mode
  | SetLoading bool
  | SetResult "CodeReviewResult option"
  | SetError "jsstring option"
  | SetIsBackendOnline bool
  | SetCopySuccess bool
  | AddLog jsstring log_type
  | AnalyzeCode request
  | SetTimeout

fun apply_effect :: "effect \<Rightarrow> world \<Rightarrow> world" where
  "apply_effect (SetCode c) w = w\<lparr>ui := (ui w)\<lparr>code := c\<rparr>\<rparr>"
| "apply_effect (SetLanguage l) w = w\<lparr>ui := (ui w)\<lparr>language := l\<rparr>\<rparr>"
| "apply_effect (SetMode m) w = w\<lparr>ui := (ui w)\<lparr>mode := m\<rparr>\<rparr>"
| "apply_effect (SetLoading b) w = w\<lparr>ui := (ui w)\<lparr>loading := b\<rparr>\<rparr>"
| "apply_effect (SetResult r) w = w\<lparr>ui := (ui w)\<lparr>result := r\<rparr>\<rparr>"
| "apply_effect (SetError e) w = w\<lparr>ui := (ui w)\<lparr>error := e\<rparr>\<rparr>"
| "apply_effect (SetIsBackendOnline b) w = w\<lparr>ui := (ui w)\<lparr>isBackendOnline := b\<rparr>\<rparr>"
| "apply_effect (SetCopySuccess b) w = w\<lparr>ui := (ui w)\<lparr>copySuccess := b\<rparr>\<rparr>"
| "apply_effect (AddLog m t) w = w\<lparr>ui := (ui w)\<lparr>logs := addLog m t (logs (ui w))\<rparr>\<rparr>"
| "apply_effect (AnalyzeCode r) w = w\<lparr>inflight := inflight w @ [r]\<rparr>"
| "apply_effect SetTimeout w = w\<lparr>timers := Suc (timers w)\<rparr>"

fun run_effects :: "effect list \<Rightarrow> world \<Rightarrow> world" where
  "run_effects [] w = w"
| "run_effects (e # es) w = run_effects es (apply_effect e w)"

text \<open>
  \<open>handleAnalyze\<close> up to its \<open>await\<close>: the guard on the trimmed buffer, then the
  statements of lines 58 to 63. It reads \<open>code\<close>, \<open>mode\<close>, \<open>language\<close> and \<open>provider\<close>.
\<close>

definition handleAnalyze_call :: "bool \<Rightarrow> app \<Rightarrow> effect list" where
  "handleAnalyze_call isAlternative s =
     (if trim (code s) = [] then []
      else [SetLoading True,
            SetError None,
            AddLog ((if isAlternative then js ''Regenerating alternative'' else js ''Initiating'')
                    @ js '' '' @ mode_str (mode s) @ js '' analysis for '' @ language s @ js ''...'')
                   info,
            AnalyzeCode \<lparr>req_code = code s, req_language = language s,
                         req_provider = provider s, req_mode = mode s,
                         req_isAlternative = isAlternative\<rparr>])"

text \<open>
  \<open>handleAnalyze\<close> from the answer on. Each block gives its statements and how it
  completes: \<open>Inr ()\<close> normally, \<open>Inl m\<close> by throwing an error with message \<open>m\<close>.
\<close>

definition try_block :: "response \<Rightarrow> effect list \<times> (jsstring + unit)" where
  "try_block r =
     (case r of
        Inl m \<Rightarrow> ([], Inl m)
      | Inr data \<Rightarrow>
          ([SetResult (Some data),
            AddLog (js ''Analysis complete: '' @ decimal (length (issues data)) @ js '' findings.'')
                   info],
           Inr ()))"

definition catch_block :: "jsstring \<Rightarrow> effect list \<times> (jsstring + unit)" where
  "catch_block m = ([SetError (Some m), AddLog (js ''Error: '' @ m) err], Inr ())"

definition finally_block :: "effect list" where
  "finally_block = [SetLoading False]"

definition handleAnalyze_resume :: "response \<Rightarrow> effect list \<times> (jsstring + unit)" where
  "handleAnalyze_resume r =
     (let (es1, c1) = try_block r;
          (es2, c2) = (case c1 of Inl m \<Rightarrow> catch_block m | Inr u \<Rightarrow> ([], Inr u))
      in (es1 @ es2 @ finally_block, c2))"

text \<open>
  \<open>handleAnalyze\<close> is a closure of the render that created it: it reads \<open>code\<close>,
  \<open>language\<close>, \<open>provider\<close> and \<open>mode\<close> of the state \<open>c\<close> that render was made of, and
  its statements act on the state of the moment. It never reads \<open>loading\<close>.
  \<open>handleAnalyze_of c\<close> is the closure of a render of \<open>c\<close>; \<open>handleAnalyze\<close> is the
  closure of a render of the current state.
\<close>

definition handleAnalyze_of :: "app \<Rightarrow> bool \<Rightarrow> world \<Rightarrow> world" where
  "handleAnalyze_of c isAlternative w = run_effects (handleAnalyze_call isAlternative c) w"

definition handleAnalyze :: "bool \<Rightarrow> world \<Rightarrow> world" where
  "handleAnalyze isAlternative w = run_effects (handleAnalyze_call isAlternative (ui w)) w"

text \<open>The answer to the outstanding call number \<open>i\<close> arrives; there is nothing to do for a call that is not outstanding.\<close>

definition settle :: "nat \<Rightarrow> response \<Rightarrow> world \<Rightarrow> world" where
  "settle i r w =
     (if i < length (inflight w)
      then run_effects (fst (handleAnalyze_resume r))
             (w\<lparr>inflight := take i (inflight w) @ drop (Suc i) (inflight w)\<rparr>)
      else w)"

section \<open>App.tsx: what is rendered\<close>

definition lines :: "app \<Rightarrow> jsstring list" where
  "lines s = split_newline (code s)"

text \<open>
  Line 154, beside the gutter entry of index \<open>i\<close>: the test
  \<open>issues.some(iss => iss.line === i+1)\<close>, and the marker
  \<open>result?.issues.some(...)\<close>, absent while there is no result.
\<close>

definition some_issue_on :: "CodeIssue list \<Rightarrow> nat \<Rightarrow> bool" where
  "some_issue_on iss i = list_ex (\<lambda>x. line x = int i + 1) iss"

definition marker :: "CodeReviewResult option \<Rightarrow> nat \<Rightarrow> bool" where
  "marker res i = (case res of None \<Rightarrow> False | Some r \<Rightarrow> some_issue_on (issues r) i)"

definition gutter :: "app \<Rightarrow> bool list" where
  "gutter s = map (marker (result s)) [0..<length (lines s)]"

text \<open>
  The line numbers \<open>i + 1\<close> whose gutter entry passes the test of line 154, for a
  buffer of \<open>lineCount\<close> lines and the issues of a result.
\<close>

definition annotate :: "nat \<Rightarrow> CodeIssue list \<Rightarrow> int set" where
  "annotate lineCount iss =
     set (map (\<lambda>i. int i + 1) (filter (some_issue_on iss) [0..<lineCount]))"

text \<open>Line 173: \<open>{lines.length} L / {result?.issues.length || 0} A\<close>.\<close>

definition telemetry :: "app \<Rightarrow> nat \<times> nat" where
  "telemetry s =
     (length (lines s), (case result s of None \<Rightarrow> 0 | Some r \<Rightarrow> length (issues r)))"

definition backend_label :: "app \<Rightarrow> jsstring" where
  "backend_label s = (if isBackendOnline s then js ''Hybrid Bridge'' else js ''Cloud Native'')"

text \<open>Line 175: the Analyze button is \<open>disabled={loading}\<close>.\<close>

definition analyze_disabled :: "app \<Rightarrow> bool" where
  "analyze_disabled s = loading s"

text \<open>Line 185: the right-hand column. The Regenerate and Copy buttons are inside the result panel.\<close>

datatype pane = EmptyPlaceholder | Skeleton | ResultPanel CodeReviewResult | Nothing

definition right_pane :: "app \<Rightarrow> pane" where
  "right_pane s =
     (if result s = None \<and> \<not> loading s then EmptyPlaceholder
      else if loading s then Skeleton
      else (case result s of None \<Rightarrow> Nothing | Some r \<Rightarrow> ResultPanel r))"

section \<open>App.tsx: the events of the component\<close>

datatype event =
    ProbeDone bool
  | ChangeLanguage jsstring
  | FileLoaded jsstring
  | SelectSample sample
  | ClickPersona mode
  | ClickClear
  | Type jsstring
  | ClickAnalyze
  | ClickRegenerate
  | ClickCopy
  | CopyTimeout
  | Settled nat response

text \<open>
  The other handlers: the \<open>onload\<close> of the file reader (line 97), the sample select
  (line 112), the Clear button (line 145), the textarea (line 163) and the start-up
  effect once \<open>checkBackendStatus\<close> has answered (lines 49 to 51).
\<close>

definition file_loaded :: "jsstring \<Rightarrow> effect list" where
  "file_loaded text = [SetCode text, SetResult None]"

definition select_sample :: "sample \<Rightarrow> effect list" where
  "select_sample k = [SetCode (SAMPLES k), SetResult None]"

definition clear :: "effect list" where
  "clear = [SetCode [], SetResult None]"

definition textarea_change :: "jsstring \<Rightarrow> effect list" where
  "textarea_change text = [SetCode text]"

definition init :: "bool \<Rightarrow> effect list" where
  "init online = [SetIsBackendOnline online, AddLog (js ''Engine v1.2.0 initialized.'') info]"

text \<open>
  One event reaches the component as its last render left it. That render was made of
  the state \<open>c\<close>, which is the current state only when no state setter ran since: a
  control is offered as \<open>c\<close> says (the Analyze button is \<open>disabled={loading}\<close>,
  line 175; the result panel with the Regenerate and Copy buttons is rendered by line
  185), and the handler it calls is the closure of that render.
\<close>

fun dispatch :: "app \<Rightarrow> event \<Rightarrow> world \<Rightarrow> world" where
  "dispatch c (ProbeDone online) w =
     (if probing w then run_effects (init online) (w\<lparr>probing := False\<rparr>) else w)"
| "dispatch c (ChangeLanguage l) w =
     (if l \<in> set SUPPORTED_LANGUAGES then run_effects [SetLanguage l] w else w)"
| "dispatch c (FileLoaded text) w = run_effects (file_loaded text) w"
| "dispatch c (SelectSample k) w = run_effects (select_sample k) w"
| "dispatch c (ClickPersona p) w =
     (if p \<in> set persona_buttons then run_effects [SetMode p] w else w)"
| "dispatch c ClickClear w = run_effects clear w"
| "dispatch c (Type text) w = run_effects (textarea_change text) w"
| "dispatch c ClickAnalyze w =
     (if analyze_disabled c then w else handleAnalyze_of c False w)"
| "dispatch c ClickRegenerate w =
     (case right_pane c of ResultPanel r \<Rightarrow> handleAnalyze_of c True w | _ \<Rightarrow> w)"
| "dispatch c ClickCopy w =
     (case right_pane c of
        ResultPanel r \<Rightarrow> run_effects [SetCopySuccess True, SetTimeout] w
      | _ \<Rightarrow> w)"
| "dispatch c CopyTimeout w =
     (if 0 < timers w then run_effects [SetCopySuccess False] (w\<lparr>timers := timers w - 1\<rparr>) else w)"
| "dispatch c (Settled i r) w = settle i r w"

text \<open>
  What happens to the component: an event, or a render of the current state. \<open>play c\<close>
  runs a sequence of them from a component last rendered of \<open>c\<close>; events with no
  render between them all see the same render.
\<close>

datatype action = Render | Dispatch event

fun play :: "app \<Rightarrow> action list \<Rightarrow> world \<Rightarrow> world" where
  "play c [] w = w"
| "play c (Render # acts) w = play (ui w) acts w"
| "play c (Dispatch e # acts) w = play c acts (dispatch c e w)"

text \<open>
  \<open>ui_step\<close> is one event on a component that has rendered its current state, and
  \<open>run\<close> a sequence of events with a render before each of them.
\<close>

definition ui_step :: "event \<Rightarrow> world \<Rightarrow> world" where
  "ui_step e w = dispatch (ui w) e w"

fun run :: "event list \<Rightarrow> world \<Rightarrow> world" where
  "run [] w = w"
| "run (e # es) w = run es (ui_step e w)"

definition initial_world :: world where
  "initial_world = \<lparr>ui = initial_app, inflight = [], probing = True, timers = 0\<rparr>"

section \<open>Notions used to state the properties\<close>

text \<open>A sequence of appends to the activity log, and the entry an append stores.\<close>

fun add_logs :: "(jsstring \<times> log_type) list \<Rightarrow> log_entry list \<Rightarrow> log_entry list" where
  "add_logs [] l = l"
| "add_logs ((m, t) # es) l = add_logs es (addLog m t l)"

definition entry :: "jsstring \<times> log_type \<Rightarrow> log_entry" where
  "entry p = \<lparr>msg = fst p, type = snd p\<rparr>"

text \<open>The same world with another value of the reachability flag.\<close>

definition with_online :: "bool \<Rightarrow> world \<Rightarrow> world" where
  "with_online b w = w\<lparr>ui := (ui w)\<lparr>isBackendOnline := b\<rparr>\<rparr>"

text \<open>
  The request state of the specification, read off the state variables \<open>loading\<close>,
  \<open>error\<close> and \<open>result\<close> of the component.
\<close>

datatype RequestState = Idle | InFlight | Succeeded CodeReviewResult | Failed jsstring

definition request_state :: "app \<Rightarrow> RequestState" where
  "request_state s =
     (if loading s then InFlight
      else (case error s of
              Some m \<Rightarrow> Failed m
            | None \<Rightarrow> (case result s of Some r \<Rightarrow> Succeeded r | None \<Rightarrow> Idle)))"


definition start_message :: "bool \<Rightarrow> mode \<Rightarrow> jsstring \<Rightarrow> jsstring" where
  "start_message isAlternative m l =
     (if isAlternative then js ''Regenerating alternative'' else js ''Initiating'')
     @ js '' '' @ mode_str m @ js '' analysis for '' @ l @ js ''...''"

text \<open>Concrete inputs for the examples.\<close>

definition issue_at :: "int \<Rightarrow> CodeIssue" where
  "issue_at l = \<lparr>line = l, category = BUG, severity = HIGH, description = [], suggestion = []\<rparr>"

definition blank_world :: world where
  "blank_world = initial_world\<lparr>ui := initial_app\<lparr>code := [0x0020, 0x000A, 0x0009, 0xFEFF]\<rparr>\<rparr>"

definition sample_result :: CodeReviewResult where
  "sample_result =
     \<lparr>summary = js ''ok'', issues = [issue_at 3, issue_at 3, issue_at 9],
      metrics = \<lparr>securityScore = 80, performanceScore = 70, maintainabilityScore = 60,
                 overallHealth = 75\<rparr>,
      optimizedCode = js ''x'', languageDetected = js ''TypeScript''\<rparr>"

definition reviewed_world :: world where
  "reviewed_world =
     initial_world\<lparr>ui := initial_app\<lparr>result := Some sample_result,
                                       error := Some (js ''timeout''),
                                       logs := [\<lparr>msg = js ''Error: timeout'', type = err\<rparr>]\<rparr>\<rparr>"

definition later_result :: CodeReviewResult where
  "later_result = sample_result\<lparr>summary := js ''later'', issues := []\<rparr>"

definition five_lines :: app where
  "five_lines =
     initial_app\<lparr>code := js ''a\<newline>b\<newline>c\<newline>d\<newline>e'', result := Some sample_result\<rparr>"

text \<open>The worlds a sequence of statements passes through, one after each statement.\<close>

fun steps :: "effect list \<Rightarrow> world \<Rightarrow> world list" where
  "steps [] w = []"
| "steps (e # es) w = apply_effect e w # steps es (apply_effect e w)"

text \<open>At most one call is outstanding, and \<open>loading\<close> says whether one is.\<close>

definition single_flight :: "world \<Rightarrow> bool" where
  "single_flight w = (length (inflight w) \<le> 1 \<and> loading (ui w) = (inflight w \<noteq> []))"

text \<open>While a call is outstanding the error is the one cleared when it was issued.\<close>

definition error_cleared :: "world \<Rightarrow> bool" where
  "error_cleared w = (if loading (ui w) then error (ui w) = None else True)"

section \<open>Properties\<close>

subsection \<open>Events on a rendered component\<close>

lemma handleAnalyze_of_ui: "handleAnalyze_of (ui w) a w = handleAnalyze a w"
  by (simp add: handleAnalyze_of_def handleAnalyze_def)

lemma ui_step_simps [simp]:
  "ui_step (ProbeDone online) w =
     (if probing w then run_effects (init online) (w\<lparr>probing := False\<rparr>) else w)"
  "ui_step (ChangeLanguage l) w =
     (if l \<in> set SUPPORTED_LANGUAGES then run_effects [SetLanguage l] w else w)"
  "ui_step (FileLoaded text) w = run_effects (file_loaded text) w"
  "ui_step (SelectSample k) w = run_effects (select_sample k) w"
  "ui_step (ClickPersona p) w =
     (if p \<in> set persona_buttons then run_effects [SetMode p] w else w)"
  "ui_step ClickClear w = run_effects clear w"
  "ui_step (Type text) w = run_effects (textarea_change text) w"
  "ui_step ClickAnalyze w =
     (if analyze_disabled (ui w) then w else handleAnalyze False w)"
  "ui_step ClickRegenerate w =
     (case right_pane (ui w) of ResultPanel r \<Rightarrow> handleAnalyze True w | _ \<Rightarrow> w)"
  "ui_step ClickCopy w =
     (case right_pane (ui w) of
        ResultPanel r \<Rightarrow> run_effects [SetCopySuccess True, SetTimeout] w
      | _ \<Rightarrow> w)"
  "ui_step CopyTimeout w =
     (if 0 < timers w then run_effects [SetCopySuccess False] (w\<lparr>timers := timers w - 1\<rparr>) else w)"
  "ui_step (Settled i r) w = settle i r w"
  by (simp_all add: ui_step_def handleAnalyze_of_ui split: pane.splits)

lemma run_play:
  "run evs w = play c (concat (map (\<lambda>e. [Render, Dispatch e]) evs)) w"
  by (induction evs arbitrary: w c) (simp_all add: ui_step_def)

lemma run_effects_last: "run_effects es w = last (w # steps es w)"
  by (induction es arbitrary: w) simp_all

subsection \<open>Strings\<close>

lemma split_newline_nonempty: "split_newline s \<noteq> []"
  by (induction s) (auto split: list.splits)

lemma length_split_newline: "length (split_newline s) = Suc (count_list s newline)"
  by (induction s) (auto split: list.splits)

lemma trim_empty_iff: "trim s = [] \<longleftrightarrow> list_all is_whitespace s"
proof
  assume "list_all is_whitespace s"
  then show "trim s = []"
    by (auto simp: trim_def list_all_iff dest: set_dropWhileD)
next
  assume t: "trim s = []"
  show "list_all is_whitespace s"
  proof (rule ccontr)
    assume "\<not> list_all is_whitespace s"
    then have ne: "dropWhile is_whitespace s \<noteq> []"
      by (metis dropWhile_eq_Nil_conv list_all_iff)
    then have "\<not> is_whitespace (hd (dropWhile is_whitespace s))"
      by (rule hd_dropWhile)
    moreover have "hd (dropWhile is_whitespace s) \<in> set (rev (dropWhile is_whitespace s))"
      using ne by simp
    ultimately have "dropWhile is_whitespace (rev (dropWhile is_whitespace s)) \<noteq> []"
      by (auto simp: dropWhile_eq_Nil_conv)
    then show False using t by (simp add: trim_def)
  qed
qed

lemma trim_nonblank: "s \<noteq> [] \<Longrightarrow> \<not> is_whitespace (hd s) \<Longrightarrow> trim s \<noteq> []"
  by (cases s) (auto simp: trim_empty_iff)

lemma trim_initial_code: "trim initial_code \<noteq> []"
  by (rule trim_nonblank)
     (simp_all add: initial_code_def js_def is_whitespace_def js_whitespace_def)

lemma trim_code_initial_world: "trim (code (ui initial_world)) \<noteq> []"
  using trim_initial_code by (simp add: initial_world_def initial_app_def)



subsection \<open>The activity log\<close>

lemma length_addLog: "length (addLog m t l) \<le> 25"
  by (simp add: addLog_def slice_last_def)

lemma last_addLog: "last (addLog m t l) = \<lparr>msg = m, type = t\<rparr>"
  by (simp add: addLog_def)

lemma addLog_bounded:
  "length l \<le> 25 \<Longrightarrow> addLog m t l = drop (Suc (length l) - 25) (l @ [\<lparr>msg = m, type = t\<rparr>])"
  by (simp add: addLog_def slice_last_def)

lemma add_logs_bounded:
  "length l \<le> 25 \<Longrightarrow> add_logs es l = drop (length l + length es - 25) (l @ map entry es)"
proof (induction es arbitrary: l)
  case Nil
  then show ?case by simp
next
  case (Cons p es)
  obtain m t where p: "p = (m, t)" by (cases p)
  let ?e = "\<lparr>msg = m, type = t\<rparr>"
  let ?k = "Suc (length l) - 25"
  let ?l' = "addLog m t l"
  have l': "?l' = drop ?k (l @ [?e])" using Cons.prems by (rule addLog_bounded)
  have len: "length ?l' \<le> 25" by (rule length_addLog)
  have len': "length ?l' = Suc (length l) - ?k" by (simp add: l')
  have k: "?k \<le> length (l @ [?e])" by simp
  have "add_logs (p # es) l = add_logs es ?l'" by (simp add: p)
  also have "\<dots> = drop (length ?l' + length es - 25) (?l' @ map entry es)"
    using len by (rule Cons.IH)
  also have "?l' @ map entry es = drop ?k ((l @ [?e]) @ map entry es)"
    using k by (simp only: l' drop_append) simp
  also have "drop (length ?l' + length es - 25) (drop ?k ((l @ [?e]) @ map entry es))
      = drop (length ?l' + length es - 25 + ?k) ((l @ [?e]) @ map entry es)"
    by (simp only: drop_drop)
  also have "length ?l' + length es - 25 + ?k = length l + length (p # es) - 25"
    using Cons.prems by (simp add: len')
  also have "(l @ [?e]) @ map entry es = l @ map entry (p # es)"
    by (simp add: p entry_def)
  finally show ?case .
qed

lemma apply_effect_logs_bound:
  "length (logs (ui w)) \<le> 25 \<Longrightarrow> length (logs (ui (apply_effect e w))) \<le> 25"
  by (cases e) (simp_all add: length_addLog)

lemma run_effects_logs_bound:
  "length (logs (ui w)) \<le> 25 \<Longrightarrow> length (logs (ui (run_effects es w))) \<le> 25"
  by (induction es arbitrary: w) (simp_all add: apply_effect_logs_bound)

lemma ui_step_logs_bound:
  "length (logs (ui w)) \<le> 25 \<Longrightarrow> length (logs (ui (ui_step e w))) \<le> 25"
  by (cases e)
     (auto simp: handleAnalyze_def settle_def intro!: run_effects_logs_bound split: pane.splits)

lemma run_logs_bound:
  "length (logs (ui w)) \<le> 25 \<Longrightarrow> length (logs (ui (run evs w))) \<le> 25"
  by (induction evs arbitrary: w) (simp_all add: ui_step_logs_bound)

lemma dispatch_logs_bound:
  "length (logs (ui w)) \<le> 25 \<Longrightarrow> length (logs (ui (dispatch c e w))) \<le> 25"
  by (cases e)
     (auto simp: handleAnalyze_of_def settle_def intro!: run_effects_logs_bound split: pane.splits)

lemma play_logs_bound:
  "length (logs (ui w)) \<le> 25 \<Longrightarrow> length (logs (ui (play c acts w))) \<le> 25"
proof (induction acts arbitrary: c w)
  case Nil
  then show ?case by simp
next
  case (Cons x acts)
  then show ?case by (cases x) (simp_all add: dispatch_logs_bound)
qed

text \<open>
  Claim C3. The activity log never holds more than 25 entries: one append gives at most
  25 entries whatever the log was, and so does every sequence of events of the component.
  A sequence of appends to the empty log leaves exactly its last 25 entries, oldest first
  and as they were appended (all of them when there are at most 25).
\<close>

theorem activity_log_keeps_latest_25:
  "length (addLog m t prev) \<le> 25
   \<and> add_logs es [] = drop (length es - 25) (map entry es)
   \<and> length (add_logs es []) = min (length es) 25
   \<and> length (logs (ui (run evs initial_world))) \<le> 25"
proof -
  have a: "add_logs es [] = drop (length es - 25) (map entry es)"
    using add_logs_bounded [of "[]" es] by simp
  have b: "length (logs (ui (run evs initial_world))) \<le> 25"
    by (rule run_logs_bound) (simp add: initial_world_def initial_app_def)
  show ?thesis using a b by (simp add: length_addLog)
qed

theorem activity_log_keeps_latest_25_witness:
  "add_logs (map (\<lambda>n. (decimal n, info)) [0..<27]) []
     = map (\<lambda>n. \<lparr>msg = decimal n, type = info\<rparr>) [2..<27]"
proof -
  let ?es = "map (\<lambda>n. (decimal n, info)) [0..<27]"
  have "add_logs ?es [] = drop (length ?es - 25) (map entry ?es)"
    using activity_log_keeps_latest_25 [of "[]" info "[]" ?es "[]"] by blast
  also have "length ?es - 25 = 2" by simp
  also have "drop 2 (map entry ?es) = map entry (map (\<lambda>n. (decimal n, info)) (drop 2 [0..<27]))"
    by (simp only: drop_map)
  also have "drop 2 [0..<27::nat] = [2..<27]"
    by (simp only: drop_upt add_0)
  also have "map entry (map (\<lambda>n. (decimal n, info)) [2..<27])
      = map (\<lambda>n. \<lparr>msg = decimal n, type = info\<rparr>) [2..<27]"
    by (simp add: entry_def comp_def del: upt_rec_numeral)
  finally show ?thesis .
qed

subsection \<open>Lines and markers\<close>

text \<open>
  Claim C10. Splitting any buffer on newline gives at least one line, the empty buffer
  gives the single empty line; so the gutter has at least one entry, the telemetry
  counter shows at least 1, and line 1 is always in the range of the annotations.
\<close>

theorem line_count_positive:
  "1 \<le> length (split_newline buf)
   \<and> split_newline [] = [[]]
   \<and> 1 \<le> length (lines s)
   \<and> 1 \<le> length (gutter s)
   \<and> 1 \<le> fst (telemetry s)
   \<and> 1 \<in> {i. 1 \<le> i \<and> i \<le> int (length (lines s))}"
  by (simp add: length_split_newline lines_def gutter_def telemetry_def)

theorem line_count_positive_witness:
  "length (split_newline (js ''a\<newline>b'')) = 2
   \<and> length (lines (ui (ui_step ClickClear initial_world))) = 1
   \<and> fst (telemetry (ui (ui_step ClickClear initial_world))) = 1"
proof -
  have "length (split_newline (js ''a\<newline>b'')) = 2"
    by (simp add: js_def newline_def)
  moreover have "length (lines (ui (ui_step ClickClear initial_world))) \<le> 1"
    by (simp add: clear_def lines_def)
  ultimately show ?thesis
    using line_count_positive [of "[]" "ui (ui_step ClickClear initial_world)"]
    by (simp add: telemetry_def)
qed

lemma annotate_iff:
  "i \<in> annotate n iss \<longleftrightarrow> 1 \<le> i \<and> i \<le> int n \<and> (\<exists>x \<in> set iss. line x = i)"
proof
  assume "i \<in> annotate n iss"
  then show "1 \<le> i \<and> i \<le> int n \<and> (\<exists>x \<in> set iss. line x = i)"
    by (auto simp: annotate_def some_issue_on_def list_ex_iff)
next
  assume a: "1 \<le> i \<and> i \<le> int n \<and> (\<exists>x \<in> set iss. line x = i)"
  then obtain x where x: "x \<in> set iss" "line x = i" by blast
  from a have k: "nat (i - 1) < n" and i: "i = int (nat (i - 1)) + 1" by auto
  have "nat (i - 1) \<in> set (filter (some_issue_on iss) [0..<n])"
    using k i x by (auto simp: some_issue_on_def list_ex_iff)
  then have "int (nat (i - 1)) + 1 \<in> annotate n iss"
    unfolding annotate_def set_map by (rule imageI)
  with i show "i \<in> annotate n iss" by simp
qed

text \<open>The gutter of the component shows exactly the lines of \<open>annotate\<close>.\<close>

lemma gutter_nth:
  "k < length (lines s) \<Longrightarrow>
   gutter s ! k =
     (case result s of None \<Rightarrow> False
      | Some r \<Rightarrow> int k + 1 \<in> annotate (length (lines s)) (issues r))"
  by (auto simp: gutter_def marker_def some_issue_on_def annotate_iff list_ex_iff split: option.splits)

text \<open>
  Claim C5. The markers of the gutter are a function of the number of lines and the
  issues of the result: the gutter has one entry for each line of the buffer, the entry
  of index \<open>k\<close> carries a marker exactly when there is a result and one of its issues
  has line \<open>k + 1\<close>, and the line numbers that carry a marker are \<open>annotate\<close> of the
  line count and the issues. A line number \<open>i\<close> is in \<open>annotate lineCount iss\<close> exactly
  when it lies in \<open>[1, lineCount]\<close> and some issue has that line: an issue outside the
  range adds nothing, and several issues on one line give one member. The witness is the
  example of the specification, as a set and as the gutter of a buffer of five lines.
\<close>

theorem annotate_membership:
  "(i \<in> annotate lineCount iss \<longleftrightarrow>
      1 \<le> i \<and> i \<le> int lineCount \<and> (\<exists>x \<in> set iss. line x = i))
   \<and> annotate lineCount iss = {i. 1 \<le> i \<and> i \<le> int lineCount} \<inter> line ` set iss
   \<and> length (gutter s) = length (lines s)
   \<and> gutter s =
       map (\<lambda>k. case result s of None \<Rightarrow> False
                | Some r \<Rightarrow> \<exists>x \<in> set (issues r). line x = int k + 1)
           [0..<length (split_newline (code s))]
   \<and> {int k + 1 | k. k < length (gutter s) \<and> gutter s ! k}
       = (case result s of None \<Rightarrow> {}
          | Some r \<Rightarrow> annotate (length (split_newline (code s))) (issues r))"
proof -
  have f: "i \<in> annotate n js \<longleftrightarrow>
      1 \<le> i \<and> i \<le> int n \<and> (\<exists>x \<in> set js. line x = i)" for i n js
  proof
    assume "i \<in> annotate n js"
    then show "1 \<le> i \<and> i \<le> int n \<and> (\<exists>x \<in> set js. line x = i)"
      by (auto simp: annotate_def some_issue_on_def list_ex_iff)
  next
    assume b: "1 \<le> i \<and> i \<le> int n \<and> (\<exists>x \<in> set js. line x = i)"
    then have "nat (i - 1) < n" and j: "i = int (nat (i - 1)) + 1" by auto
    with b have "nat (i - 1) \<in> set (filter (some_issue_on js) [0..<n])"
      by (auto simp: some_issue_on_def list_ex_iff)
    then have "int (nat (i - 1)) + 1 \<in> annotate n js"
      unfolding annotate_def set_map by (rule imageI)
    with j show "i \<in> annotate n js" by simp
  qed
  have a: "annotate lineCount iss = {i. 1 \<le> i \<and> i \<le> int lineCount} \<inter> line ` set iss"
    by (auto simp: f)
  have l: "length (gutter s) = length (lines s)"
    by (simp add: gutter_def)
  have g: "gutter s =
       map (\<lambda>k. case result s of None \<Rightarrow> False
                | Some r \<Rightarrow> \<exists>x \<in> set (issues r). line x = int k + 1)
           [0..<length (split_newline (code s))]"
    by (simp add: gutter_def lines_def marker_def some_issue_on_def list_ex_iff
        split: option.splits)
  have m: "{int k + 1 | k. k < length (gutter s) \<and> gutter s ! k}
       = (case result s of None \<Rightarrow> {}
          | Some r \<Rightarrow> annotate (length (split_newline (code s))) (issues r))"
  proof (cases "result s")
    case None
    then show ?thesis by (simp add: gutter_def marker_def)
  next
    case (Some r)
    have "{int k + 1 | k. k < length (gutter s) \<and> gutter s ! k}
        = annotate (length (lines s)) (issues r)"
    proof (rule set_eqI)
      fix i
      show "i \<in> {int k + 1 | k. k < length (gutter s) \<and> gutter s ! k}
          \<longleftrightarrow> i \<in> annotate (length (lines s)) (issues r)"
      proof
        assume "i \<in> {int k + 1 | k. k < length (gutter s) \<and> gutter s ! k}"
        then obtain k where k: "i = int k + 1" "k < length (lines s)" "gutter s ! k"
          by (auto simp: l)
        then have "1 \<le> i \<and> i \<le> int (length (lines s))
            \<and> (\<exists>x \<in> set (issues r). line x = i)"
          using Some by (simp add: gutter_def marker_def some_issue_on_def list_ex_iff)
        then show "i \<in> annotate (length (lines s)) (issues r)"
          by (simp only: f)
      next
        assume i: "i \<in> annotate (length (lines s)) (issues r)"
        then have b: "1 \<le> i" "i \<le> int (length (lines s))"
          and x: "\<exists>x \<in> set (issues r). line x = i" by (simp_all add: f)
        then have k: "nat (i - 1) < length (lines s)" "i = int (nat (i - 1)) + 1" by auto
        then have "gutter s ! nat (i - 1)"
          using Some x by (simp add: gutter_def marker_def some_issue_on_def list_ex_iff)
        with k have "\<exists>j. i = int j + 1 \<and> j < length (gutter s) \<and> gutter s ! j"
          unfolding l by blast
        then show "i \<in> {int k + 1 | k. k < length (gutter s) \<and> gutter s ! k}"
          by simp
      qed
    qed
    then show ?thesis using Some by (simp add: lines_def)
  qed
  show ?thesis
    by (intro conjI) (rule f a l g m)+
qed

theorem annotate_membership_witness:
  "annotate 5 [issue_at 3, issue_at 3, issue_at 9] = {3}
   \<and> gutter five_lines = [False, False, True, False, False]"
proof -
  let ?iss = "[issue_at 3, issue_at 3, issue_at 9]"
  have "line ` set ?iss = {3, 9}"
    by (auto simp: issue_at_def)
  then have a: "annotate 5 ?iss = {3}"
    using annotate_membership [of 0 5 ?iss five_lines] by auto
  have n: "length (split_newline (code five_lines)) = 5"
    by (simp add: five_lines_def js_def newline_def)
  have r: "result five_lines = Some sample_result"
    by (simp add: five_lines_def)
  have "gutter five_lines
      = map (\<lambda>k. \<exists>x \<in> set (issues sample_result). line x = int k + 1) [0..<5]"
    using annotate_membership [of 0 5 ?iss five_lines] by (simp add: n r)
  also have "\<dots> = [False, False, True, False, False]"
    by (simp add: sample_result_def issue_at_def upt_rec)
  finally show ?thesis using a by simp
qed

subsection \<open>handleAnalyze\<close>

lemma handleAnalyze_call_nonblank:
  "trim (code s) \<noteq> [] \<Longrightarrow>
   handleAnalyze_call isAlternative s =
     [SetLoading True, SetError None,
      AddLog (start_message isAlternative (mode s) (language s)) info,
      AnalyzeCode \<lparr>req_code = code s, req_language = language s, req_provider = provider s,
                   req_mode = mode s, req_isAlternative = isAlternative\<rparr>]"
  by (simp add: handleAnalyze_call_def start_message_def)

lemma handleAnalyze_resume_Inr:
  "handleAnalyze_resume (Inr data) =
     ([SetResult (Some data),
       AddLog (js ''Analysis complete: '' @ decimal (length (issues data)) @ js '' findings.'') info,
       SetLoading False], Inr ())"
  by (simp add: handleAnalyze_resume_def try_block_def finally_block_def)

lemma handleAnalyze_resume_Inl:
  "handleAnalyze_resume (Inl m) =
     ([SetError (Some m), AddLog (js ''Error: '' @ m) err, SetLoading False], Inr ())"
  by (simp add: handleAnalyze_resume_def try_block_def catch_block_def finally_block_def)

lemma handleAnalyze_blank: "trim (code (ui w)) = [] \<Longrightarrow> handleAnalyze a w = w"
  by (simp add: handleAnalyze_def handleAnalyze_call_def)

lemma handleAnalyze_nonblank:
  "trim (code (ui w)) \<noteq> [] \<Longrightarrow>
   handleAnalyze a w =
     w\<lparr>ui := (ui w)\<lparr>loading := True, error := None,
                     logs := addLog (start_message a (mode (ui w)) (language (ui w))) info (logs (ui w))\<rparr>,
       inflight := inflight w @ [\<lparr>req_code = code (ui w), req_language = language (ui w),
                                   req_provider = provider (ui w), req_mode = mode (ui w),
                                   req_isAlternative = a\<rparr>]\<rparr>"
  by (simp add: handleAnalyze_def handleAnalyze_call_nonblank)

lemma settle_Inr:
  "i < length (inflight w) \<Longrightarrow>
   settle i (Inr d) w =
     w\<lparr>inflight := take i (inflight w) @ drop (Suc i) (inflight w),
       ui := (ui w)\<lparr>result := Some d,
                     logs := addLog (js ''Analysis complete: '' @ decimal (length (issues d))
                                     @ js '' findings.'') info (logs (ui w)),
                     loading := False\<rparr>\<rparr>"
  by (simp add: settle_def handleAnalyze_resume_Inr)

lemma settle_Inl:
  "i < length (inflight w) \<Longrightarrow>
   settle i (Inl m) w =
     w\<lparr>inflight := take i (inflight w) @ drop (Suc i) (inflight w),
       ui := (ui w)\<lparr>error := Some m,
                     logs := addLog (js ''Error: '' @ m) err (logs (ui w)),
                     loading := False\<rparr>\<rparr>"
  by (simp add: settle_def handleAnalyze_resume_Inl)

lemma handleAnalyze_of_nonblank:
  "trim (code c) \<noteq> [] \<Longrightarrow>
   handleAnalyze_of c a w =
     w\<lparr>ui := (ui w)\<lparr>loading := True, error := None,
                     logs := addLog (start_message a (mode c) (language c)) info (logs (ui w))\<rparr>,
       inflight := inflight w @ [\<lparr>req_code = code c, req_language = language c,
                                   req_provider = provider c, req_mode = mode c,
                                   req_isAlternative = a\<rparr>]\<rparr>"
  by (simp add: handleAnalyze_of_def handleAnalyze_call_nonblank)

lemma handleAnalyze_call_reads:
  "code s = code c \<Longrightarrow> language s = language c \<Longrightarrow> provider s = provider c \<Longrightarrow>
   mode s = mode c \<Longrightarrow> handleAnalyze_call a s = handleAnalyze_call a c"
  by (simp add: handleAnalyze_call_def)

text \<open>
  Claim C2. When the buffer is empty or holds whitespace only, \<open>handleAnalyze\<close> has no
  statement to run: the component state (loading flag, result, error, log) and the
  outstanding calls are as before, for a fresh and for an alternative pass, and so they
  are after a click on either button.
\<close>

theorem blank_submit_is_noop:
  assumes "\<forall>c \<in> set (code (ui w)). is_whitespace c"
  shows "handleAnalyze_call isAlternative (ui w) = []
         \<and> handleAnalyze isAlternative w = w
         \<and> ui_step ClickAnalyze w = w
         \<and> ui_step ClickRegenerate w = w"
proof -
  have "trim (code (ui w)) = []"
    using assms by (simp add: trim_empty_iff list_all_iff)
  then have c: "handleAnalyze_call b (ui w) = []" for b
    by (simp add: handleAnalyze_call_def)
  then have h: "handleAnalyze b w = w" for b
    by (simp add: handleAnalyze_def)
  show ?thesis using c h by (simp split: pane.splits)
qed

theorem blank_submit_is_noop_witness:
  "list_all is_whitespace (code (ui blank_world))
   \<and> handleAnalyze_call True (ui blank_world) = []
   \<and> handleAnalyze False blank_world = blank_world
   \<and> ui_step ClickAnalyze blank_world = blank_world
   \<and> ui_step ClickRegenerate blank_world = blank_world"
proof -
  have h: "\<forall>c \<in> set (code (ui blank_world)). is_whitespace c"
    by (simp add: blank_world_def is_whitespace_def js_whitespace_def)
  show ?thesis
    using h blank_submit_is_noop [OF h, of True] blank_submit_is_noop [OF h, of False]
    by (simp add: list_all_iff)
qed



text \<open>
  Claim C4. A submission answered by the review \<open>R1\<close> and then a submission answered by
  the rejection \<open>E\<close>: the result of the component is still \<open>R1\<close> and the result panel is
  rendered with it, while the error is \<open>E\<close> and the last log entry is \<open>Error:\<close> with
  \<open>E\<close> at level \<open>err\<close>. The component renders the log, not the \<open>error\<close> variable: the
  message is on screen through the log entry.
\<close>

theorem failure_keeps_last_result:
  assumes "trim (code (ui w)) \<noteq> []"
  shows "let n = length (inflight w);
             w1 = settle n (Inr R1) (handleAnalyze a w);
             w2 = settle n (Inl E) (handleAnalyze b w1)
         in request_state (ui w1) = Succeeded R1
            \<and> result (ui w1) = Some R1
            \<and> request_state (ui w2) = Failed E
            \<and> error (ui w2) = Some E
            \<and> result (ui w2) = Some R1
            \<and> right_pane (ui w2) = ResultPanel R1
            \<and> last (logs (ui w2)) = \<lparr>msg = js ''Error: '' @ E, type = err\<rparr>"
proof -
  let ?n = "length (inflight w)"
  let ?w1 = "settle ?n (Inr R1) (handleAnalyze a w)"
  have w1: "result (ui ?w1) = Some R1" "error (ui ?w1) = None" "loading (ui ?w1) = False"
      "inflight ?w1 = inflight w" "code (ui ?w1) = code (ui w)"
    using assms by (simp_all add: handleAnalyze_nonblank settle_Inr)
  have c1: "trim (code (ui ?w1)) \<noteq> []" using assms w1 by simp
  let ?w2 = "settle ?n (Inl E) (handleAnalyze b ?w1)"
  have w2: "result (ui ?w2) = Some R1" "error (ui ?w2) = Some E" "loading (ui ?w2) = False"
      "last (logs (ui ?w2)) = \<lparr>msg = js ''Error: '' @ E, type = err\<rparr>"
    using w1 by (simp_all add: handleAnalyze_nonblank [OF c1] settle_Inl last_addLog)
  show ?thesis using w1 w2
    by (simp add: Let_def request_state_def right_pane_def)
qed

theorem failure_keeps_last_result_witness:
  "trim (code (ui initial_world)) \<noteq> []
   \<and> (let w1 = settle 0 (Inr sample_result) (handleAnalyze False initial_world);
          w2 = settle 0 (Inl (js ''timeout'')) (handleAnalyze True w1)
      in result (ui w2) = Some sample_result \<and> error (ui w2) = Some (js ''timeout'')
         \<and> right_pane (ui w2) = ResultPanel sample_result)"
proof -
  have c: "trim (code (ui initial_world)) \<noteq> []"
    by (rule trim_code_initial_world)
  have n: "length (inflight initial_world) = 0" by (simp add: initial_world_def)
  show ?thesis
    using c failure_keeps_last_result [OF c, of sample_result False "js ''timeout''" True]
    by (simp add: Let_def n)
qed

subsection \<open>The reachability flag\<close>

lemma ui_with_online [simp]: "ui (with_online b w) = (ui w)\<lparr>isBackendOnline := b\<rparr>"
  and inflight_with_online [simp]: "inflight (with_online b w) = inflight w"
  by (simp_all add: with_online_def)

lemma handleAnalyze_call_online:
  "handleAnalyze_call a (s\<lparr>isBackendOnline := b\<rparr>) = handleAnalyze_call a s"
  by (simp add: handleAnalyze_call_def)

lemma handleAnalyze_with_online:
  "handleAnalyze a (with_online b w) = with_online b (handleAnalyze a w)"
proof (cases "trim (code (ui w)) = []")
  case True
  then show ?thesis by (simp add: handleAnalyze_blank)
next
  case False
  then have "trim (code (ui (with_online b w))) \<noteq> []" by simp
  then show ?thesis using False
    by (simp add: handleAnalyze_nonblank) (simp add: with_online_def)
qed

lemma settle_with_online:
  "settle i r (with_online b w) = with_online b (settle i r w)"
proof (cases "i < length (inflight w)")
  case True
  then have "i < length (inflight (with_online b w))" by simp
  then show ?thesis using True
    by (cases r) (simp_all add: settle_Inl settle_Inr, simp_all add: with_online_def)
next
  case False
  then show ?thesis by (simp add: settle_def)
qed

text \<open>
  Claim C8. Two runs that differ in the reachability flag only: \<open>handleAnalyze\<close> runs
  the same statements with the same call to \<open>analyzeCode\<close>, and a click on Analyze, a
  click on Regenerate and an answer lead to worlds that again differ in the flag only
  (same loading flag, result, error, log and outstanding calls). Whether the buttons are
  offered and what the gutter shows do not depend on the flag; the label does.
\<close>

theorem reachability_flag_does_not_influence_submit:
  "handleAnalyze_call a (s\<lparr>isBackendOnline := b\<rparr>) = handleAnalyze_call a s
   \<and> handleAnalyze a (with_online b w) = with_online b (handleAnalyze a w)
   \<and> settle i r (with_online b w) = with_online b (settle i r w)
   \<and> ui_step ClickAnalyze (with_online b w) = with_online b (ui_step ClickAnalyze w)
   \<and> ui_step ClickRegenerate (with_online b w) = with_online b (ui_step ClickRegenerate w)
   \<and> ui_step (Settled i r) (with_online b w) = with_online b (ui_step (Settled i r) w)
   \<and> analyze_disabled (s\<lparr>isBackendOnline := b\<rparr>) = analyze_disabled s
   \<and> right_pane (s\<lparr>isBackendOnline := b\<rparr>) = right_pane s
   \<and> gutter (s\<lparr>isBackendOnline := b\<rparr>) = gutter s
   \<and> backend_label (s\<lparr>isBackendOnline := b\<rparr>) =
       (if b then js ''Hybrid Bridge'' else js ''Cloud Native'')"
proof -
  have p: "right_pane ((ui w)\<lparr>isBackendOnline := b\<rparr>) = right_pane (ui w)"
    by (simp add: right_pane_def)
  have r: "ui_step ClickRegenerate (with_online b w) = with_online b (ui_step ClickRegenerate w)"
    by (simp add: p handleAnalyze_with_online split: pane.splits)
  have a: "ui_step ClickAnalyze (with_online b w) = with_online b (ui_step ClickAnalyze w)"
    by (simp add: analyze_disabled_def handleAnalyze_with_online)
  show ?thesis
    using a r
    by (simp add: handleAnalyze_call_online handleAnalyze_with_online settle_with_online
        analyze_disabled_def right_pane_def gutter_def lines_def backend_label_def)
qed

theorem reachability_flag_does_not_influence_submit_witness:
  "handleAnalyze_call False (initial_app\<lparr>isBackendOnline := True\<rparr>)
     = handleAnalyze_call False initial_app
   \<and> ui_step ClickAnalyze (with_online True initial_world)
       = with_online True (ui_step ClickAnalyze initial_world)
   \<and> ui_step (Settled 0 (Inr sample_result)) (with_online True (ui_step ClickAnalyze initial_world))
       = with_online True (ui_step (Settled 0 (Inr sample_result)) (ui_step ClickAnalyze initial_world))
   \<and> backend_label (initial_app\<lparr>isBackendOnline := True\<rparr>) = js ''Hybrid Bridge''
   \<and> backend_label (initial_app\<lparr>isBackendOnline := False\<rparr>) = js ''Cloud Native''"
  using reachability_flag_does_not_influence_submit
      [where a = False and s = initial_app and b = True and w = initial_world
         and i = 0 and r = "Inr sample_result"]
    reachability_flag_does_not_influence_submit
      [where a = False and s = initial_app and b = True
         and w = "ui_step ClickAnalyze initial_world" and i = 0 and r = "Inr sample_result"]
    reachability_flag_does_not_influence_submit
      [where a = False and s = initial_app and b = False and w = initial_world
         and i = 0 and r = "Inr sample_result"]
  by (simp only: if_True if_False)

subsection \<open>Replacing the buffer\<close>

text \<open>
  Claim C9. A loaded file, a chosen sample and Clear put the new text in the buffer and
  reset the result to null; the error and the log stay as they were. Typing in the editor
  puts the new text in the buffer and leaves result, error and log as they were, so the
  gutter marks the lines of the new text by the issues of the old result.
\<close>

theorem buffer_replacement_frame:
  "(let w' = ui_step (FileLoaded text) w
    in code (ui w') = text \<and> result (ui w') = None
       \<and> error (ui w') = error (ui w) \<and> logs (ui w') = logs (ui w))
   \<and> (let w' = ui_step (SelectSample k) w
      in code (ui w') = SAMPLES k \<and> result (ui w') = None
         \<and> error (ui w') = error (ui w) \<and> logs (ui w') = logs (ui w))
   \<and> (let w' = ui_step ClickClear w
      in code (ui w') = [] \<and> result (ui w') = None
         \<and> error (ui w') = error (ui w) \<and> logs (ui w') = logs (ui w))
   \<and> (let w' = ui_step (Type text) w
      in code (ui w') = text \<and> result (ui w') = result (ui w)
         \<and> error (ui w') = error (ui w) \<and> logs (ui w') = logs (ui w)
         \<and> gutter (ui w') = map (marker (result (ui w))) [0..<length (split_newline text)])"
  by (simp add: Let_def file_loaded_def select_sample_def clear_def textarea_change_def
      gutter_def lines_def)

theorem buffer_replacement_frame_witness:
  "result (ui (ui_step ClickClear reviewed_world)) = None
   \<and> error (ui (ui_step ClickClear reviewed_world)) = Some (js ''timeout'')
   \<and> logs (ui (ui_step (FileLoaded (js ''x'')) reviewed_world))
       = [\<lparr>msg = js ''Error: timeout'', type = err\<rparr>]
   \<and> result (ui (ui_step (SelectSample Memory_Leak_JS) reviewed_world)) = None
   \<and> result (ui (ui_step (Type (js ''a\<newline>b\<newline>c'')) reviewed_world)) = Some sample_result
   \<and> gutter (ui (ui_step (Type (js ''a\<newline>b\<newline>c'')) reviewed_world)) = [False, False, True]"
proof -
  have r: "result (ui reviewed_world) = Some sample_result"
      "error (ui reviewed_world) = Some (js ''timeout'')"
      "logs (ui reviewed_world) = [\<lparr>msg = js ''Error: timeout'', type = err\<rparr>]"
    by (simp_all add: reviewed_world_def)
  have g: "map (marker (Some sample_result)) [0..<length (split_newline (js ''a\<newline>b\<newline>c''))]
      = [False, False, True]"
    by (simp add: js_def newline_def marker_def some_issue_on_def sample_result_def issue_at_def upt_rec)
  show ?thesis
    using buffer_replacement_frame [of "js ''x''" reviewed_world Memory_Leak_JS]
      buffer_replacement_frame [of "js ''a\<newline>b\<newline>c''" reviewed_world Memory_Leak_JS]
    by (simp only: Let_def r g)
qed

subsection \<open>Overlapping submissions\<close>

text \<open>
  \<open>handleAnalyze\<close> itself does not read \<open>loading\<close>. What keeps a second submission out
  is the rendering: the Analyze button is disabled and the result panel, with its
  Regenerate button, is not rendered once the component has rendered with \<open>loading\<close>
  set. With a render before every event at most one call is outstanding and a click
  while one is outstanding changes nothing.
\<close>

lemma handleAnalyze_call_ignores_loading:
  "handleAnalyze_call a (s\<lparr>loading := b\<rparr>) = handleAnalyze_call a s"
  by (simp add: handleAnalyze_call_def)

lemma click_while_loading:
  "loading (ui w) \<Longrightarrow> ui_step ClickAnalyze w = w \<and> ui_step ClickRegenerate w = w"
  by (simp add: analyze_disabled_def right_pane_def)

lemma right_pane_ResultPanel: "right_pane s = ResultPanel r \<Longrightarrow> \<not> loading s"
  by (simp add: right_pane_def split: if_splits)

lemma single_flight_handleAnalyze:
  assumes "single_flight w" and "\<not> loading (ui w)"
  shows "single_flight (handleAnalyze a w)"
proof (cases "trim (code (ui w)) = []")
  case True
  then show ?thesis using assms by (simp add: handleAnalyze_blank)
next
  case False
  then show ?thesis using assms by (simp add: handleAnalyze_nonblank single_flight_def)
qed

lemma single_flight_settle:
  assumes "single_flight w"
  shows "single_flight (settle i r w)"
proof (cases "i < length (inflight w)")
  case True
  with assms have i: "i = 0" and len: "length (inflight w) = 1"
    by (simp_all add: single_flight_def)
  from len obtain x where x: "inflight w = [x]"
    by (cases "inflight w") simp_all
  show ?thesis
  proof (cases r)
    case (Inl m)
    then show ?thesis using True by (simp add: settle_Inl single_flight_def i x)
  next
    case (Inr d)
    then show ?thesis using True by (simp add: settle_Inr single_flight_def i x)
  qed
next
  case False
  then show ?thesis using assms by (simp add: settle_def)
qed

lemma single_flight_ui_step:
  assumes "single_flight w"
  shows "single_flight (ui_step e w)"
proof (cases e)
  case ClickAnalyze
  then show ?thesis using assms
    by (simp add: analyze_disabled_def single_flight_handleAnalyze)
next
  case ClickRegenerate
  then show ?thesis using assms
    by (auto split: pane.splits dest: right_pane_ResultPanel
        intro: single_flight_handleAnalyze)
next
  case (Settled i r)
  then show ?thesis using assms by (simp add: single_flight_settle)
qed (use assms in \<open>auto simp: single_flight_def init_def file_loaded_def select_sample_def
       clear_def textarea_change_def split: pane.splits\<close>)

lemma single_flight_run: "single_flight w \<Longrightarrow> single_flight (run evs w)"
  by (induction evs arbitrary: w) (simp_all add: single_flight_ui_step)

lemma single_flight_initial: "single_flight initial_world"
  by (simp add: single_flight_def initial_world_def initial_app_def)

lemma click_ignored_after_render:
  "let w = run evs initial_world
   in length (inflight w) \<le> 1
      \<and> loading (ui w) = (inflight w \<noteq> [])
      \<and> (inflight w \<noteq> [] \<longrightarrow>
           ui_step ClickAnalyze w = w \<and> ui_step ClickRegenerate w = w)"
proof -
  have "single_flight (run evs initial_world)"
    using single_flight_initial by (rule single_flight_run)
  then show ?thesis
    by (auto simp: Let_def single_flight_def dest: click_while_loading)
qed

text \<open>
  Claim C1. The component does not enforce an overlap policy. Two clicks on Analyze that
  reach the same render, the one of the initial state, both run \<open>handleAnalyze\<close>: the
  second submission is not rejected and two calls to \<open>analyzeCode\<close> are outstanding.
  When the answer to the later call arrives first it is stored and \<open>loading\<close> is cleared
  while the earlier call is still outstanding; the answer to the earlier call is then
  stored over it. The state ends with the review of the earlier request.
\<close>

theorem overlapping_submissions_interleave:
  "let clicks = [Dispatch ClickAnalyze, Dispatch ClickAnalyze];
       w2 = play initial_app clicks initial_world;
       w3 = play initial_app (clicks @ [Render, Dispatch (Settled 1 (Inr later_result))])
              initial_world;
       w4 = play initial_app
              (clicks @ [Render, Dispatch (Settled 1 (Inr later_result)),
                         Render, Dispatch (Settled 0 (Inr sample_result))])
              initial_world
   in w2 = handleAnalyze False (handleAnalyze False initial_world)
      \<and> length (inflight w2) = 2
      \<and> result (ui w3) = Some later_result
      \<and> loading (ui w3) = False
      \<and> length (inflight w3) = 1
      \<and> result (ui w4) = Some sample_result
      \<and> inflight w4 = []
      \<and> sample_result \<noteq> later_result"
proof -
  have c: "trim (code initial_app) \<noteq> []"
    using trim_initial_code by (simp add: initial_app_def)
  have e: "\<not> analyze_disabled initial_app"
    by (simp add: analyze_disabled_def initial_app_def)
  have u: "ui initial_world = initial_app" by (simp add: initial_world_def)
  let ?w1 = "handleAnalyze_of initial_app False initial_world"
  let ?w2 = "handleAnalyze_of initial_app False ?w1"
  have p2: "play initial_app [Dispatch ClickAnalyze, Dispatch ClickAnalyze] initial_world = ?w2"
    using e by simp
  have h1: "handleAnalyze False initial_world = ?w1"
    by (simp add: handleAnalyze_def handleAnalyze_of_def u)
  have c1: "code (ui ?w1) = code initial_app" "language (ui ?w1) = language initial_app"
      "provider (ui ?w1) = provider initial_app" "mode (ui ?w1) = mode initial_app"
    by (simp_all add: handleAnalyze_of_nonblank [OF c] u)
  have "handleAnalyze_call False (ui ?w1) = handleAnalyze_call False initial_app"
    using c1 by (rule handleAnalyze_call_reads)
  then have h2: "handleAnalyze False ?w1 = ?w2"
    by (simp only: handleAnalyze_def handleAnalyze_of_def)
  have n2: "length (inflight ?w2) = 2"
    by (simp add: handleAnalyze_of_nonblank [OF c] initial_world_def)
  let ?w3 = "settle (Suc 0) (Inr later_result) ?w2"
  have i1: "Suc 0 < length (inflight ?w2)" using n2 by simp
  have r3: "result (ui ?w3) = Some later_result" "loading (ui ?w3) = False"
      "length (inflight ?w3) = 1"
    using n2 by (simp_all add: settle_Inr [OF i1])
  let ?w4 = "settle 0 (Inr sample_result) ?w3"
  have i0: "0 < length (inflight ?w3)" using r3 by simp
  have r4: "result (ui ?w4) = Some sample_result" "inflight ?w4 = []"
    using r3 by (simp_all add: settle_Inr [OF i0])
  have p3: "play initial_app
      ([Dispatch ClickAnalyze, Dispatch ClickAnalyze]
        @ [Render, Dispatch (Settled 1 (Inr later_result))]) initial_world = ?w3"
    using e by simp
  have p4: "play initial_app
      ([Dispatch ClickAnalyze, Dispatch ClickAnalyze]
        @ [Render, Dispatch (Settled 1 (Inr later_result)),
           Render, Dispatch (Settled 0 (Inr sample_result))]) initial_world = ?w4"
    using e by simp
  have d: "sample_result \<noteq> later_result"
    by (simp add: later_result_def sample_result_def js_def)
  show ?thesis
    unfolding Let_def p2 p3 p4 h1 h2
    using n2 r3 r4 d by simp
qed


theorem overlapping_submissions_interleave_witness:
  "length (inflight (handleAnalyze False (handleAnalyze False initial_world))) = 2"
proof -
  note T = overlapping_submissions_interleave [unfolded Let_def]
  show ?thesis
    unfolding T [THEN conjunct1, symmetric]
    by (rule T [THEN conjunct2, THEN conjunct1])
qed

subsection \<open>Settling\<close>

lemma error_cleared_handleAnalyze: "error_cleared w \<Longrightarrow> error_cleared (handleAnalyze a w)"
proof (cases "trim (code (ui w)) = []")
  case True
  assume "error_cleared w"
  then show ?thesis using True by (simp add: handleAnalyze_blank)
next
  case False
  then show ?thesis by (simp add: handleAnalyze_nonblank error_cleared_def)
qed

lemma error_cleared_settle: "error_cleared w \<Longrightarrow> error_cleared (settle i r w)"
proof (cases "i < length (inflight w)")
  case True
  then show ?thesis
    by (cases r) (simp_all add: settle_Inl settle_Inr error_cleared_def)
next
  case False
  assume "error_cleared w"
  then show ?thesis using False by (simp add: settle_def)
qed

lemma error_cleared_ui_step:
  assumes "error_cleared w"
  shows "error_cleared (ui_step e w)"
proof (cases e)
  case ClickAnalyze
  then show ?thesis using assms by (simp add: error_cleared_handleAnalyze)
next
  case ClickRegenerate
  then show ?thesis using assms
    by (simp add: error_cleared_handleAnalyze split: pane.splits)
next
  case (Settled i r)
  then show ?thesis using assms by (simp add: error_cleared_settle)
qed (use assms in \<open>auto simp: error_cleared_def init_def file_loaded_def select_sample_def
       clear_def textarea_change_def split: pane.splits\<close>)

lemma error_cleared_run: "error_cleared w \<Longrightarrow> error_cleared (run evs w)"
  by (induction evs arbitrary: w) (simp_all add: error_cleared_ui_step)

lemma error_cleared_initial: "error_cleared initial_world"
  by (simp add: error_cleared_def initial_world_def initial_app_def)

lemma settle_outstanding:
  assumes "single_flight w" and "error_cleared w" and "inflight w \<noteq> []"
  shows "request_state (ui (settle 0 r w)) = (case r of Inr d \<Rightarrow> Succeeded d | Inl m \<Rightarrow> Failed m)"
proof -
  have l: "loading (ui w)" and e: "error (ui w) = None" and i: "0 < length (inflight w)"
    using assms by (simp_all add: single_flight_def error_cleared_def)
  show ?thesis
    by (cases r) (simp_all add: settle_Inl [OF i] settle_Inr [OF i] request_state_def e)
qed

lemma request_state_InFlight: "request_state s = InFlight \<longleftrightarrow> loading s"
  by (simp add: request_state_def split: option.splits)

text \<open>
  Claim C6. For a buffer that is not blank (after trimming: a blank buffer makes no
  call), one call of \<open>handleAnalyze\<close> puts the component in flight with one more
  outstanding call, and the answer to that call ends it: \<open>loading\<close> is cleared, the call
  is no longer outstanding, the handler completes normally whatever the answer is, and
  the request state is \<open>Succeeded\<close> with the review (and no error) for a review,
  \<open>Failed\<close> with the message for a rejection, which also leaves the result as it was and
  ends the log with the entry of level \<open>err\<close>. A rejection carries a message, as the
  contract of the network client says. The same holds with other events between the
  call and its answer, when the component is rendered before every event: after every
  such sequence of events from the initial state the component is in flight exactly
  while a call is outstanding, and the answer to that call gives \<open>Succeeded\<close> or
  \<open>Failed\<close>, as the answer is.
\<close>

theorem submit_settles_once:
  assumes "trim (code (ui w)) \<noteq> []"
  shows "(let w1 = handleAnalyze a w;
             w2 = settle (length (inflight w)) r w1
         in request_state (ui w1) = InFlight
            \<and> length (inflight w1) = Suc (length (inflight w))
            \<and> snd (handleAnalyze_resume r) = Inr ()
            \<and> inflight w2 = inflight w
            \<and> loading (ui w2) = False
            \<and> (case r of
                  Inr d \<Rightarrow> request_state (ui w2) = Succeeded d \<and> error (ui w2) = None
                | Inl m \<Rightarrow> request_state (ui w2) = Failed m
                           \<and> result (ui w2) = result (ui w)
                           \<and> last (logs (ui w2)) = \<lparr>msg = js ''Error: '' @ m, type = err\<rparr>))
         \<and> (let v = run evs initial_world
            in if inflight v = [] then request_state (ui v) \<noteq> InFlight
               else request_state (ui v) = InFlight
                    \<and> request_state (ui (ui_step (Settled 0 r) v))
                        = (case r of Inr d \<Rightarrow> Succeeded d | Inl m \<Rightarrow> Failed m))"
proof -
  have one: "let w1 = handleAnalyze a w;
                 w2 = settle (length (inflight w)) r w1
             in request_state (ui w1) = InFlight
                \<and> length (inflight w1) = Suc (length (inflight w))
                \<and> snd (handleAnalyze_resume r) = Inr ()
                \<and> inflight w2 = inflight w
                \<and> loading (ui w2) = False
                \<and> (case r of
                      Inr d \<Rightarrow> request_state (ui w2) = Succeeded d \<and> error (ui w2) = None
                    | Inl m \<Rightarrow> request_state (ui w2) = Failed m
                               \<and> result (ui w2) = result (ui w)
                               \<and> last (logs (ui w2)) = \<lparr>msg = js ''Error: '' @ m, type = err\<rparr>)"
  proof (cases r)
    case (Inl m)
    then show ?thesis using assms
      by (simp add: Let_def handleAnalyze_nonblank settle_Inl request_state_def last_addLog
          handleAnalyze_resume_Inl)
  next
    case (Inr d)
    then show ?thesis using assms
      by (simp add: Let_def handleAnalyze_nonblank settle_Inr request_state_def
          handleAnalyze_resume_Inr)
  qed
  let ?v = "run evs initial_world"
  have s: "single_flight ?v" using single_flight_initial by (rule single_flight_run)
  have c: "error_cleared ?v" using error_cleared_initial by (rule error_cleared_run)
  have two: "let v = ?v
             in if inflight v = [] then request_state (ui v) \<noteq> InFlight
                else request_state (ui v) = InFlight
                     \<and> request_state (ui (ui_step (Settled 0 r) v))
                         = (case r of Inr d \<Rightarrow> Succeeded d | Inl m \<Rightarrow> Failed m)"
  proof (cases "inflight ?v = []")
    case True
    then show ?thesis using s by (simp add: Let_def single_flight_def request_state_InFlight)
  next
    case False
    then show ?thesis using s settle_outstanding [OF s c False]
      by (simp add: Let_def single_flight_def request_state_InFlight)
  qed
  show ?thesis using one two by (rule conjI)
qed

theorem submit_settles_once_witness:
  "trim (code (ui initial_world)) \<noteq> []
   \<and> request_state (ui (handleAnalyze False initial_world)) = InFlight
   \<and> request_state (ui (settle 0 (Inr sample_result) (handleAnalyze False initial_world)))
       = Succeeded sample_result
   \<and> request_state (ui (settle 0 (Inl (js ''timeout'')) (handleAnalyze False initial_world)))
       = Failed (js ''timeout'')
   \<and> request_state (ui (run [ClickAnalyze, Type (js ''x''), Settled 0 (Inl (js ''timeout''))]
                            initial_world))
       = Failed (js ''timeout'')"
proof -
  have c: "trim (code (ui initial_world)) \<noteq> []"
    by (rule trim_code_initial_world)
  have n: "length (inflight initial_world) = 0" by (simp add: initial_world_def)
  have i: "inflight (run [ClickAnalyze, Type (js ''x'')] initial_world) \<noteq> []"
    using c
    by (simp add: analyze_disabled_def textarea_change_def handleAnalyze_nonblank)
       (simp add: initial_world_def initial_app_def)
  have r: "run [ClickAnalyze, Type (js ''x''), Settled 0 (Inl (js ''timeout''))] initial_world
      = ui_step (Settled 0 (Inl (js ''timeout'')))
          (run [ClickAnalyze, Type (js ''x'')] initial_world)"
    by simp
  show ?thesis
    using c i
      submit_settles_once [OF c, where a = False and r = "Inr sample_result" and evs = "[]"]
      submit_settles_once [OF c, where a = False and r = "Inl (js ''timeout'')"
        and evs = "[ClickAnalyze, Type (js ''x'')]"]
    by (simp only: r Let_def n) simp
qed

end
